theory Spec2Isabelle
  imports Complex_Main "HOL-Library.Multiset" "HOL-Library.Product_Lexorder"
begin

section \<open>Calendar dates\<close>

text \<open>
  The program keeps dates as \<^verbatim>\<open>'%Y-%m-%d'\<close> text and turns them into
  \<^verbatim>\<open>datetime\<close> objects with \<^verbatim>\<open>strptime\<close> before it computes with them.
  The model keeps the parsed value: a year, a month and a day. Zero-padded ISO text
  is ordered as the triple (year, month, day) is, so comparing the text (as the SQL
  of the program does) and comparing the dates (as the Python does) agree.
  Parsing malformed text is outside the model.
\<close>

datatype date = Date (year: nat) (month: nat) (day: nat)

definition ymd :: "date \<Rightarrow> nat \<times> nat \<times> nat" where
  "ymd d = (year d, month d, day d)"

instantiation date :: linorder
begin

definition less_eq_date :: "date \<Rightarrow> date \<Rightarrow> bool" where
  "less_eq_date a b \<longleftrightarrow> ymd a \<le> ymd b"

definition less_date :: "date \<Rightarrow> date \<Rightarrow> bool" where
  "less_date a b \<longleftrightarrow> ymd a < ymd b"

instance
proof
  fix a b c :: date
  show "(a < b) = (a \<le> b \<and> \<not> b \<le> a)"
    unfolding less_eq_date_def less_date_def by (rule less_le_not_le)
  show "a \<le> a"
    unfolding less_eq_date_def by (rule order_refl)
  show "a \<le> b \<Longrightarrow> b \<le> c \<Longrightarrow> a \<le> c"
    unfolding less_eq_date_def by (rule order_trans)
  show "a \<le> b \<or> b \<le> a"
    unfolding less_eq_date_def by (rule linear)
  show "a \<le> b \<Longrightarrow> b \<le> a \<Longrightarrow> a = b"
  proof -
    assume "a \<le> b" and "b \<le> a"
    then have "ymd a = ymd b"
      unfolding less_eq_date_def by (rule order_antisym)
    then show "a = b"
      by (cases a, cases b) (simp add: ymd_def)
  qed
qed

end

text \<open>The exceptions of \<^verbatim>\<open>datetime\<close> that the date arithmetic can raise.\<close>

datatype error = ValueError | OverflowError

definition is_leap :: "nat \<Rightarrow> bool" where
  "is_leap y \<longleftrightarrow> y mod 4 = 0 \<and> (y mod 100 \<noteq> 0 \<or> y mod 400 = 0)"

definition days_in_month :: "nat \<Rightarrow> nat \<Rightarrow> nat" where
  "days_in_month y m =
     (if m = 2 then (if is_leap y then 29 else 28)
      else if m = 4 \<or> m = 6 \<or> m = 9 \<or> m = 11 then 30
      else 31)"

text \<open>What \<^verbatim>\<open>datetime\<close> accepts as a date: years 1 to 9999.\<close>

definition valid_date :: "date \<Rightarrow> bool" where
  "valid_date d \<longleftrightarrow>
     1 \<le> year d \<and> year d \<le> 9999 \<and> 1 \<le> month d \<and> month d \<le> 12 \<and>
     1 \<le> day d \<and> day d \<le> days_in_month (year d) (month d)"

text \<open>
  \<^verbatim>\<open>last_date.replace(year=y, month=m)\<close> builds the date with the fields given
  and the others kept, and raises \<^verbatim>\<open>ValueError\<close> when that is no calendar date.
\<close>

definition replace :: "date \<Rightarrow> nat \<Rightarrow> nat \<Rightarrow> error + date" where
  "replace d y m =
     (if valid_date (Date y m (day d)) then Inr (Date y m (day d)) else Inl ValueError)"

text \<open>
  \<^verbatim>\<open>d + timedelta(days=n)\<close>: the n-th day after \<open>d\<close>, \<^verbatim>\<open>OverflowError\<close>
  past 9999-12-31. \<^verbatim>\<open>d - timedelta(days=1)\<close>: the day before, \<^verbatim>\<open>OverflowError\<close>
  before 0001-01-01.
\<close>

definition next_day :: "date \<Rightarrow> error + date" where
  "next_day d =
     (if day d < days_in_month (year d) (month d) then Inr (Date (year d) (month d) (day d + 1))
      else if month d < 12 then Inr (Date (year d) (month d + 1) 1)
      else if year d < 9999 then Inr (Date (year d + 1) 1 1)
      else Inl OverflowError)"

fun add_days :: "date \<Rightarrow> nat \<Rightarrow> error + date" where
  "add_days d 0 = Inr d"
| "add_days d (Suc n) = (case next_day d of Inl e \<Rightarrow> Inl e | Inr d' \<Rightarrow> add_days d' n)"

definition sub_one_day :: "date \<Rightarrow> error + date" where
  "sub_one_day d =
     (if 1 < day d then Inr (Date (year d) (month d) (day d - 1))
      else if 1 < month d
        then Inr (Date (year d) (month d - 1) (days_in_month (year d) (month d - 1)))
      else if 1 < year d then Inr (Date (year d - 1) 12 31)
      else Inl OverflowError)"

section \<open>The recurring rule engine: next due date\<close>

text \<open>\<^verbatim>\<open>DatabaseManager._calculate_next_due_date\<close>, branch by branch.\<close>

definition calculate_next_due_date :: "date \<Rightarrow> string \<Rightarrow> error + date" where
  "calculate_next_due_date last_date frequency =
     (if frequency = ''daily'' then add_days last_date 1
      else if frequency = ''weekly'' then add_days last_date 7
      else if frequency = ''bi-weekly'' then add_days last_date 14
      else if frequency = ''monthly'' then
        (if month last_date = 12 then replace last_date (year last_date + 1) 1
         else replace last_date (year last_date) (month last_date + 1))
      else if frequency = ''yearly'' then replace last_date (year last_date + 1) (month last_date)
      else add_days last_date 1)"

section \<open>The ledger store\<close>

text \<open>
  The two tables of \<^verbatim>\<open>init_database\<close>, a row as a record with the columns in
  the order of the schema (the code reads them by position: \<^verbatim>\<open>trans[1]\<close> is the
  date, \<^verbatim>\<open>trans[2]\<close> the description, \<^verbatim>\<open>trans[3]\<close> the category,
  \<^verbatim>\<open>trans[4]\<close> the amount, \<^verbatim>\<open>trans[5]\<close> the type). The amount is a
  \<^verbatim>\<open>REAL\<close> column, a floating-point number in Python; the model leaves its type
  open and uses nothing of it but equality, zero, addition and negation.
  \<^verbatim>\<open>created_at\<close> is the clock of the database at the insertion
  (\<^verbatim>\<open>CURRENT_TIMESTAMP\<close>): an input of every operation that inserts, read once
  for the operation. The code never reads the column back, and no result below
  depends on its value.
\<close>

type_synonym timestamp = nat

record 'a transaction =
  t_id :: nat
  t_date :: date
  t_description :: string
  t_category :: string
  t_amount :: 'a
  t_type :: string
  t_person :: string
  t_created_at :: timestamp

record 'a recurring =
  r_id :: nat
  r_description :: string
  r_category :: string
  r_amount :: 'a
  r_type :: string
  r_person :: string
  r_frequency :: string
  r_start_date :: date
  r_end_date :: "date option"
  r_last_processed :: "date option"
  r_active :: bool
  r_created_at :: timestamp

text \<open>
  A table is the list of its rows in insertion order. Both keys are
  \<^verbatim>\<open>INTEGER PRIMARY KEY AUTOINCREMENT\<close>: the store remembers the largest key it
  ever gave out, also across \<^verbatim>\<open>DELETE\<close>, and the next row gets the successor.
\<close>

record 'a store =
  transactions :: "'a transaction list"
  recurring_transactions :: "'a recurring list"
  transactions_seq :: nat
  recurring_seq :: nat

text \<open>\<^verbatim>\<open>DatabaseManager.add_transaction\<close>: returns \<^verbatim>\<open>lastrowid\<close> (and the store).\<close>

definition add_transaction ::
  "timestamp \<Rightarrow> date \<Rightarrow> string \<Rightarrow> string \<Rightarrow> 'a \<Rightarrow> string \<Rightarrow> string \<Rightarrow> 'a store \<Rightarrow> nat \<times> 'a store" where
  "add_transaction ts date description category amount trans_type person s =
     (let lastrowid = transactions_seq s + 1 in
      (lastrowid,
       s\<lparr>transactions := transactions s @
            [\<lparr>t_id = lastrowid, t_date = date, t_description = description,
              t_category = category, t_amount = amount, t_type = trans_type,
              t_person = person, t_created_at = ts\<rparr>],
         transactions_seq := lastrowid\<rparr>))"

text \<open>
  \<^verbatim>\<open>DatabaseManager.get_transactions\<close>. The filters are a dictionary; a key that
  is missing, \<^verbatim>\<open>None\<close> or the empty string is not applied
  (\<^verbatim>\<open>if filters.get('category'):\<close>). No filters at all is \<open>None\<close>.
\<close>

record filters =
  f_start_date :: "date option"
  f_end_date :: "date option"
  f_category :: "string option"
  f_person :: "string option"
  f_type :: "string option"

definition conditions :: "filters \<Rightarrow> ('a transaction \<Rightarrow> bool) list" where
  "conditions f =
     (case f_start_date f of Some d \<Rightarrow> [\<lambda>t. d \<le> t_date t] | None \<Rightarrow> []) @
     (case f_end_date f of Some d \<Rightarrow> [\<lambda>t. t_date t \<le> d] | None \<Rightarrow> []) @
     (case f_category f of
        Some c \<Rightarrow> if c \<noteq> [] then [\<lambda>t. t_category t = c] else [] | None \<Rightarrow> []) @
     (case f_person f of
        Some p \<Rightarrow> if p \<noteq> [] then [\<lambda>t. t_person t = p] else [] | None \<Rightarrow> []) @
     (case f_type f of
        Some ty \<Rightarrow> if ty \<noteq> [] then [\<lambda>t. t_type t = ty] else [] | None \<Rightarrow> [])"

definition where_clause :: "filters option \<Rightarrow> 'a transaction \<Rightarrow> bool" where
  "where_clause filters t =
     (case filters of None \<Rightarrow> True | Some f \<Rightarrow> list_all (\<lambda>c. c t) (conditions f))"

text \<open>\<^verbatim>\<open>ORDER BY date DESC, id DESC\<close>\<close>

definition order_by_date_desc_id_desc :: "'a transaction list \<Rightarrow> 'a transaction list" where
  "order_by_date_desc_id_desc rows = rev (sort_key (\<lambda>t. (t_date t, t_id t)) rows)"

definition get_transactions :: "filters option \<Rightarrow> 'a store \<Rightarrow> 'a transaction list" where
  "get_transactions filters s =
     order_by_date_desc_id_desc (filter (where_clause filters) (transactions s))"

text \<open>
  \<^verbatim>\<open>DatabaseManager.add_recurring_transaction\<close>: the statement inserts
  \<^verbatim>\<open>None\<close> as \<^verbatim>\<open>last_processed\<close>, and \<^verbatim>\<open>active\<close> takes its default 1.
\<close>

definition add_recurring_transaction ::
  "timestamp \<Rightarrow> string \<Rightarrow> string \<Rightarrow> 'a \<Rightarrow> string \<Rightarrow> string \<Rightarrow> string \<Rightarrow> date \<Rightarrow> date option \<Rightarrow>
   'a store \<Rightarrow> nat \<times> 'a store" where
  "add_recurring_transaction ts description category amount trans_type person frequency
     start_date end_date s =
     (let lastrowid = recurring_seq s + 1 in
      (lastrowid,
       s\<lparr>recurring_transactions := recurring_transactions s @
            [\<lparr>r_id = lastrowid, r_description = description, r_category = category,
              r_amount = amount, r_type = trans_type, r_person = person,
              r_frequency = frequency, r_start_date = start_date, r_end_date = end_date,
              r_last_processed = None, r_active = True, r_created_at = ts\<rparr>],
         recurring_seq := lastrowid\<rparr>))"

text \<open>\<^verbatim>\<open>SELECT * FROM recurring_transactions WHERE active = 1 ORDER BY id\<close>\<close>

definition get_recurring_transactions :: "'a store \<Rightarrow> 'a recurring list" where
  "get_recurring_transactions s = sort_key r_id (filter r_active (recurring_transactions s))"

section \<open>The recurring rule engine: processing what is due\<close>

text \<open>
  The body of the loop of \<^verbatim>\<open>process_recurring_transactions\<close>, in its steps.
  \<^verbatim>\<open>last_processed_dt\<close> is the last processed date, or the day before the start
  date when there is none.
\<close>

definition last_processed_dt :: "'a recurring \<Rightarrow> error + date" where
  "last_processed_dt rec =
     (case r_last_processed rec of
        Some d \<Rightarrow> Inr d
      | None \<Rightarrow> sub_one_day (r_start_date rec))"

definition next_due_of :: "'a recurring \<Rightarrow> error + date" where
  "next_due_of rec =
     (case last_processed_dt rec of
        Inl e \<Rightarrow> Inl e
      | Inr last_date \<Rightarrow> calculate_next_due_date last_date (r_frequency rec))"

text \<open>
  \<^verbatim>\<open>if next_due <= today:\<close> and then
  \<^verbatim>\<open>if not end_date or strptime(end_date).date() >= today:\<close>
\<close>

definition is_due :: "date \<Rightarrow> 'a recurring \<Rightarrow> date \<Rightarrow> bool" where
  "is_due today rec next_due \<longleftrightarrow>
     next_due \<le> today \<and> (case r_end_date rec of None \<Rightarrow> True | Some e \<Rightarrow> today \<le> e)"

text \<open>\<^verbatim>\<open>UPDATE recurring_transactions SET last_processed = ? WHERE id = ?\<close>\<close>

definition set_last_processed :: "nat \<Rightarrow> date \<Rightarrow> 'a store \<Rightarrow> 'a store" where
  "set_last_processed i d s =
     s\<lparr>recurring_transactions :=
         map (\<lambda>r. if r_id r = i then r\<lparr>r_last_processed := Some d\<rparr> else r)
           (recurring_transactions s)\<rparr>"

text \<open>The two writes of a due rule: the transaction, then the marker of the rule.\<close>

definition materialize :: "timestamp \<Rightarrow> 'a recurring \<Rightarrow> date \<Rightarrow> 'a store \<Rightarrow> 'a store" where
  "materialize ts rec next_due s =
     set_last_processed (r_id rec) next_due
       (snd (add_transaction ts next_due (r_description rec @ '' (Auto)'') (r_category rec)
          (r_amount rec) (r_type rec) (r_person rec) s))"

text \<open>
  The loop runs over the rows read before it starts. Nothing catches an exception of
  the date arithmetic: it leaves the loop and the function, and what was written
  before stays written (each write is committed on its own). So the result is the
  store together with the exception or the count.
\<close>

fun process_loop ::
  "date \<Rightarrow> timestamp \<Rightarrow> 'a recurring list \<Rightarrow> 'a store \<Rightarrow> nat \<Rightarrow> 'a store \<times> (error + nat)" where
  "process_loop today ts [] s processed_count = (s, Inr processed_count)"
| "process_loop today ts (rec # recurring) s processed_count =
     (case next_due_of rec of
        Inl e \<Rightarrow> (s, Inl e)
      | Inr next_due \<Rightarrow>
          if is_due today rec next_due
          then process_loop today ts recurring (materialize ts rec next_due s)
                 (processed_count + 1)
          else process_loop today ts recurring s processed_count)"

definition process_recurring_transactions ::
  "date \<Rightarrow> timestamp \<Rightarrow> 'a store \<Rightarrow> 'a store \<times> (error + nat)" where
  "process_recurring_transactions today ts s =
     process_loop today ts (get_recurring_transactions s) s 0"

text \<open>
  Two conditions on a rule, for a given today. A rule is caught up when its next due
  date can be computed and the rule is not due. A rule is at most one period behind
  when its next due date can be computed and, if the rule is due, the due date after
  that one can be computed too and is later than today.
\<close>

definition caught_up :: "date \<Rightarrow> 'a recurring \<Rightarrow> bool" where
  "caught_up today rec =
     (case next_due_of rec of Inl e \<Rightarrow> False | Inr next_due \<Rightarrow> \<not> is_due today rec next_due)"

definition one_period_behind :: "date \<Rightarrow> 'a recurring \<Rightarrow> bool" where
  "one_period_behind today rec =
     (case next_due_of rec of
        Inl e \<Rightarrow> False
      | Inr next_due \<Rightarrow>
          if is_due today rec next_due
          then (case calculate_next_due_date next_due (r_frequency rec) of
                  Inl e \<Rightarrow> False
                | Inr after_next \<Rightarrow> today < after_next)
          else True)"

section \<open>Export and import\<close>

text \<open>
  The snapshot is the dictionary that \<^verbatim>\<open>export_data\<close> dumps as JSON and
  \<^verbatim>\<open>import_data\<close> loads: numbers, strings and \<^verbatim>\<open>None\<close> come back from
  JSON as they went in, so the file is modelled by its content. Reading and writing
  the file can fail; that is outside the model, and the imports below are of a
  snapshot whose rows have all their columns.
\<close>

record 'a snapshot =
  snap_transactions :: "'a transaction list"
  snap_recurring_transactions :: "'a recurring list"
  snap_export_date :: timestamp
  snap_version :: string


text \<open>
  The body of the first loop of \<^verbatim>\<open>import_data\<close>: in merge mode the row is
  skipped when a stored row of the same date has the same \<^verbatim>\<open>t[2]\<close>,
  \<^verbatim>\<open>t[4]\<close> and \<^verbatim>\<open>t[1]\<close>.
\<close>

definition import_transaction :: "bool \<Rightarrow> timestamp \<Rightarrow> 'a transaction \<Rightarrow> 'a store \<Rightarrow> 'a store" where
  "import_transaction merge ts tx s =
     (if merge \<and>
         list_ex (\<lambda>t. t_description t = t_description tx \<and> t_amount t = t_amount tx \<and>
                      t_date t = t_date tx)
           (get_transactions
              (Some \<lparr>f_start_date = Some (t_date tx), f_end_date = Some (t_date tx),
                     f_category = None, f_person = None, f_type = None\<rparr>) s)
      then s
      else snd (add_transaction ts (t_date tx) (t_description tx) (t_category tx)
                  (t_amount tx) (t_type tx) (t_person tx) s))"

fun import_transactions :: "bool \<Rightarrow> timestamp \<Rightarrow> 'a transaction list \<Rightarrow> 'a store \<Rightarrow> 'a store" where
  "import_transactions merge ts [] s = s"
| "import_transactions merge ts (tx # rest) s =
     import_transactions merge ts rest (import_transaction merge ts tx s)"

text \<open>
  The body of the second loop: in merge mode the rule is skipped when an active rule
  has the same \<^verbatim>\<open>r[1]\<close>, \<^verbatim>\<open>r[4]\<close> and \<^verbatim>\<open>r[6]\<close>; otherwise
  \<^verbatim>\<open>rec[1]\<close> to \<^verbatim>\<open>rec[8]\<close> are inserted.
\<close>

definition import_recurring :: "bool \<Rightarrow> timestamp \<Rightarrow> 'a recurring \<Rightarrow> 'a store \<Rightarrow> 'a store" where
  "import_recurring merge ts rec s =
     (if merge \<and>
         list_ex (\<lambda>r. r_description r = r_description rec \<and> r_type r = r_type rec \<and>
                      r_frequency r = r_frequency rec)
           (get_recurring_transactions s)
      then s
      else snd (add_recurring_transaction ts (r_description rec) (r_category rec)
                  (r_amount rec) (r_type rec) (r_person rec) (r_frequency rec)
                  (r_start_date rec) (r_end_date rec) s))"

fun import_recurrings :: "bool \<Rightarrow> timestamp \<Rightarrow> 'a recurring list \<Rightarrow> 'a store \<Rightarrow> 'a store" where
  "import_recurrings merge ts [] s = s"
| "import_recurrings merge ts (rec # rest) s =
     import_recurrings merge ts rest (import_recurring merge ts rec s)"

text \<open>\<^verbatim>\<open>DELETE FROM transactions\<close>, \<^verbatim>\<open>DELETE FROM recurring_transactions\<close>\<close>

definition clear_existing :: "'a store \<Rightarrow> 'a store" where
  "clear_existing s = s\<lparr>transactions := [], recurring_transactions := []\<rparr>"

definition import_data :: "bool \<Rightarrow> timestamp \<Rightarrow> 'a snapshot \<Rightarrow> 'a store \<Rightarrow> 'a store \<times> bool" where
  "import_data merge ts data s =
     (let s0 = (if \<not> merge then clear_existing s else s);
          s1 = import_transactions merge ts (snap_transactions data) s0;
          s2 = import_recurrings merge ts (snap_recurring_transactions data) s1
      in (s2, True))"

section \<open>The running balance of the chart\<close>

text \<open>
  \<^verbatim>\<open>BudgetApp.update_chart\<close>, from the sort on: a stable sort on the date, then
  one pass that appends a date and the balance so far for every row. A row whose type
  is not \<^verbatim>\<open>'Income'\<close> counts negative.
\<close>

fun balance_loop ::
  "'a::{zero,plus,uminus} transaction list \<Rightarrow> 'a \<Rightarrow> date list \<Rightarrow> 'a list \<Rightarrow> date list \<times> 'a list" where
  "balance_loop [] running_balance dates balances = (dates, balances)"
| "balance_loop (tx # rest) running_balance dates balances =
     (let amount = (if t_type tx = ''Income'' then t_amount tx else - t_amount tx);
          running_balance' = running_balance + amount
      in balance_loop rest running_balance' (dates @ [t_date tx])
           (balances @ [running_balance']))"

definition running_balance :: "'a::{zero,plus,uminus} transaction list \<Rightarrow> (date \<times> 'a) list" where
  "running_balance txs =
     (case balance_loop (sort_key t_date txs) 0 [] [] of
        (dates, balances) \<Rightarrow> zip dates balances)"

text \<open>
  The cumulative sum in the words of the specification: the balance after each
  amount, from a starting balance.
\<close>

fun cumulative :: "'a::plus \<Rightarrow> 'a list \<Rightarrow> 'a list" where
  "cumulative acc [] = []"
| "cumulative acc (x # xs) = (acc + x) # cumulative (acc + x) xs"

section \<open>What an import carries over\<close>



section \<open>Example data\<close>

definition tx_a :: "real transaction" where
  "tx_a = \<lparr>t_id = 1, t_date = Date 2024 1 1, t_description = ''Salary'', t_category = ''Work'',
           t_amount = 100, t_type = ''Income'', t_person = ''Both'', t_created_at = 0\<rparr>"

definition tx_b :: "real transaction" where
  "tx_b = \<lparr>t_id = 2, t_date = Date 2024 1 2, t_description = ''Groceries'', t_category = ''Food'',
           t_amount = 40, t_type = ''Expense'', t_person = ''Both'', t_created_at = 0\<rparr>"

definition tx_c :: "real transaction" where
  "tx_c = \<lparr>t_id = 3, t_date = Date 2024 1 2, t_description = ''Lunch'', t_category = ''Food'',
           t_amount = 12, t_type = ''Expense'', t_person = ''Person 1'', t_created_at = 0\<rparr>"

definition rent_rule :: "real recurring" where
  "rent_rule = \<lparr>r_id = 1, r_description = ''Rent'', r_category = ''Housing'', r_amount = 900,
                r_type = ''Expense'', r_person = ''Both'', r_frequency = ''monthly'',
                r_start_date = Date 2024 1 5, r_end_date = None,
                r_last_processed = Some (Date 2024 1 5), r_active = True, r_created_at = 0\<rparr>"

definition ledger :: "real store" where
  "ledger = \<lparr>transactions = [tx_a, tx_b, tx_c], recurring_transactions = [rent_rule],
             transactions_seq = 3, recurring_seq = 1\<rparr>"

definition food_filter :: filters where
  "food_filter = \<lparr>f_start_date = Some (Date 2024 1 2), f_end_date = None,
                  f_category = Some ''Food'', f_person = None, f_type = Some ''Expense''\<rparr>"

text \<open>Rows of incoming snapshots.\<close>

definition tx_dearer :: "real transaction" where
  "tx_dearer = \<lparr>t_id = 1, t_date = Date 2024 1 1, t_description = ''Salary'',
                t_category = ''Work'', t_amount = 120, t_type = ''Income'', t_person = ''Both'',
                t_created_at = 0\<rparr>"

definition tx_relabelled :: "real transaction" where
  "tx_relabelled = \<lparr>t_id = 1, t_date = Date 2024 1 1, t_description = ''Salary'',
                    t_category = ''Bonus'', t_amount = 100, t_type = ''Income'',
                    t_person = ''Both'', t_created_at = 0\<rparr>"

definition snapshot_of :: "real transaction list \<Rightarrow> real recurring list \<Rightarrow> real snapshot" where
  "snapshot_of txs recs =
     \<lparr>snap_transactions = txs, snap_recurring_transactions = recs, snap_export_date = 7,
      snap_version = ''1.0''\<rparr>"

definition rent_rule_raised :: "real recurring" where
  "rent_rule_raised = \<lparr>r_id = 4, r_description = ''Rent'', r_category = ''Flat'', r_amount = 950,
                r_type = ''Expense'', r_person = ''Person 1'', r_frequency = ''monthly'',
                r_start_date = Date 2024 3 1, r_end_date = None,
                r_last_processed = None, r_active = True, r_created_at = 0\<rparr>"

definition gym_rule :: "real recurring" where
  "gym_rule = \<lparr>r_id = 2, r_description = ''Gym'', r_category = ''Health'', r_amount = 30,
                r_type = ''Expense'', r_person = ''Person 2'', r_frequency = ''weekly'',
                r_start_date = Date 2024 1 1, r_end_date = Some (Date 2024 12 31),
                r_last_processed = Some (Date 2024 1 8), r_active = True, r_created_at = 0\<rparr>"

text \<open>Stores of rules only.\<close>

definition coffee_rule :: "real recurring" where
  "coffee_rule = \<lparr>r_id = 1, r_description = ''Coffee'', r_category = ''Food'', r_amount = 3,
                r_type = ''Expense'', r_person = ''Person 1'', r_frequency = ''daily'',
                r_start_date = Date 2024 1 1, r_end_date = None,
                r_last_processed = None, r_active = True, r_created_at = 0\<rparr>"

definition trial_rule :: "real recurring" where
  "trial_rule = \<lparr>r_id = 1, r_description = ''Trial'', r_category = ''Media'', r_amount = 5,
                r_type = ''Expense'', r_person = ''Person 2'', r_frequency = ''daily'',
                r_start_date = Date 2024 1 1, r_end_date = Some (Date 2024 1 10),
                r_last_processed = None, r_active = True, r_created_at = 0\<rparr>"

definition loan_rule :: "real recurring" where
  "loan_rule = \<lparr>r_id = 2, r_description = ''Loan'', r_category = ''Debt'', r_amount = 250,
                r_type = ''Expense'', r_person = ''Both'', r_frequency = ''monthly'',
                r_start_date = Date 2024 1 31, r_end_date = None,
                r_last_processed = None, r_active = True, r_created_at = 0\<rparr>"

definition bus_rule :: "real recurring" where
  "bus_rule = \<lparr>r_id = 3, r_description = ''Bus pass'', r_category = ''Transport'', r_amount = 20,
                r_type = ''Expense'', r_person = ''Person 1'', r_frequency = ''weekly'',
                r_start_date = Date 2024 1 1, r_end_date = None,
                r_last_processed = Some (Date 2024 2 19), r_active = True, r_created_at = 0\<rparr>"

definition rules_only :: "real recurring list \<Rightarrow> real store" where
  "rules_only recs =
     \<lparr>transactions = [], recurring_transactions = recs, transactions_seq = 0,
      recurring_seq = 3\<rparr>"

section \<open>Auxiliary facts\<close>

lemma Date_le_iff [simp]:
  "Date y m d \<le> Date y' m' d' \<longleftrightarrow> y < y' \<or> (y = y' \<and> (m < m' \<or> (m = m' \<and> d \<le> d')))"
  by (auto simp: less_eq_date_def ymd_def)

lemma Date_less_iff [simp]:
  "Date y m d < Date y' m' d' \<longleftrightarrow> y < y' \<or> (y = y' \<and> (m < m' \<or> (m = m' \<and> d < d')))"
  by (auto simp: less_date_def ymd_def)

lemma balance_loop_eq:
  "balance_loop xs rb dates balances =
     (dates @ map t_date xs,
      balances @ cumulative rb
        (map (\<lambda>t. if t_type t = ''Income'' then t_amount t else - t_amount t) xs))"
  by (induction xs arbitrary: rb dates balances) (simp_all add: Let_def)

lemma length_cumulative: "length (cumulative acc xs) = length xs"
  by (induction xs arbitrary: acc) simp_all

lemma cumulative_nth:
  "i < length xs \<Longrightarrow> cumulative acc xs ! i = foldl (+) acc (take (Suc i) xs)"
proof (induction xs arbitrary: acc i)
  case Nil
  then show ?case by simp
next
  case (Cons x xs)
  show ?case
  proof (cases i)
    case 0
    then show ?thesis by simp
  next
    case (Suc j)
    with Cons.prems have "j < length xs" by simp
    from Cons.IH [OF this, of "acc + x"] Suc show ?thesis by simp
  qed
qed

lemma running_balance_eq:
  "running_balance txs =
     zip (map t_date (sort_key t_date txs))
       (cumulative 0 (map (\<lambda>t. if t_type t = ''Income'' then t_amount t else - t_amount t)
          (sort_key t_date txs)))"
  by (simp add: running_balance_def balance_loop_eq)

lemma running_balance_nth:
  assumes "i < length txs"
  shows "running_balance txs ! i =
     (t_date (sort_key t_date txs ! i),
      foldl (+) 0 (map (\<lambda>t. if t_type t = ''Income'' then t_amount t else - t_amount t)
        (take (Suc i) (sort_key t_date txs))))"
  using assms
  by (simp add: running_balance_eq length_cumulative cumulative_nth take_map)

lemma where_clause_iff:
  "where_clause filters t \<longleftrightarrow>
     (\<forall>f. filters = Some f \<longrightarrow>
         (\<forall>d. f_start_date f = Some d \<longrightarrow> d \<le> t_date t) \<and>
         (\<forall>d. f_end_date f = Some d \<longrightarrow> t_date t \<le> d) \<and>
         (\<forall>c. f_category f = Some c \<and> c \<noteq> [] \<longrightarrow> t_category t = c) \<and>
         (\<forall>p. f_person f = Some p \<and> p \<noteq> [] \<longrightarrow> t_person t = p) \<and>
         (\<forall>ty. f_type f = Some ty \<and> ty \<noteq> [] \<longrightarrow> t_type t = ty))"
  by (cases filters) (auto simp: where_clause_def conditions_def split: option.splits)

lemma mset_order_by: "mset (order_by_date_desc_id_desc rows) = mset rows"
  by (simp add: order_by_date_desc_id_desc_def)

lemma sorted_order_by:
  "sorted_wrt (\<lambda>a b. t_date b < t_date a \<or> (t_date b = t_date a \<and> t_id b \<le> t_id a))
     (order_by_date_desc_id_desc rows)"
proof -
  have "sorted (map (\<lambda>t. (t_date t, t_id t)) (sort_key (\<lambda>t. (t_date t, t_id t)) rows))"
    by (rule sorted_sort_key)
  then have "sorted_wrt (\<lambda>a b. (t_date a, t_id a) \<le> (t_date b, t_id b))
      (sort_key (\<lambda>t. (t_date t, t_id t)) rows)"
    by (simp add: sorted_map)
  then have "sorted_wrt (\<lambda>a b. t_date a < t_date b \<or> (t_date a = t_date b \<and> t_id a \<le> t_id b))
      (sort_key (\<lambda>t. (t_date t, t_id t)) rows)"
    by (rule sorted_wrt_mono_rel [rotated]) auto
  then show ?thesis
    by (simp add: order_by_date_desc_id_desc_def sorted_wrt_rev)
qed

lemma set_get_transactions:
  "set (get_transactions filters s) = {t \<in> set (transactions s). where_clause filters t}"
  by (simp add: get_transactions_def order_by_date_desc_id_desc_def)

lemma set_get_recurring_transactions:
  "set (get_recurring_transactions s) = {r \<in> set (recurring_transactions s). r_active r}"
  by (simp add: get_recurring_transactions_def)

lemma import_transaction_merge:
  "import_transaction True ts tx s =
     (if \<exists>t\<in>set (transactions s).
           t_date t = t_date tx \<and> t_description t = t_description tx \<and> t_amount t = t_amount tx
      then s
      else snd (add_transaction ts (t_date tx) (t_description tx) (t_category tx) (t_amount tx)
                  (t_type tx) (t_person tx) s))"
proof -
  have "list_ex (\<lambda>t. t_description t = t_description tx \<and> t_amount t = t_amount tx \<and>
                      t_date t = t_date tx)
           (get_transactions
              (Some \<lparr>f_start_date = Some (t_date tx), f_end_date = Some (t_date tx),
                     f_category = None, f_person = None, f_type = None\<rparr>) s) \<longleftrightarrow>
        (\<exists>t\<in>set (transactions s).
           t_date t = t_date tx \<and> t_description t = t_description tx \<and> t_amount t = t_amount tx)"
    by (auto simp: list_ex_iff set_get_transactions where_clause_def conditions_def)
  then show ?thesis
    by (simp add: import_transaction_def)
qed

lemma import_transactions_all_known:
  "\<forall>tx\<in>set txs. \<exists>t\<in>set (transactions s).
       t_date t = t_date tx \<and> t_description t = t_description tx \<and> t_amount t = t_amount tx \<Longrightarrow>
   import_transactions True ts txs s = s"
  by (induction txs) (simp_all add: import_transaction_merge)

lemma transactions_import_recurring [simp]:
  "transactions (import_recurring merge ts rec s) = transactions s"
  by (simp add: import_recurring_def add_recurring_transaction_def Let_def)

lemma transactions_import_recurrings [simp]:
  "transactions (import_recurrings merge ts recs s) = transactions s"
  by (induction recs arbitrary: s) simp_all

lemma recurring_import_transaction [simp]:
  "recurring_transactions (import_transaction merge ts tx s) = recurring_transactions s"
  by (simp add: import_transaction_def add_transaction_def Let_def)

lemma recurring_import_transactions [simp]:
  "recurring_transactions (import_transactions merge ts txs s) = recurring_transactions s"
  by (induction txs arbitrary: s) simp_all

lemma recurring_seq_import_transactions [simp]:
  "recurring_seq (import_transactions merge ts txs s) = recurring_seq s"
  by (induction txs arbitrary: s) (simp_all add: import_transaction_def add_transaction_def Let_def)

lemma import_recurring_merge:
  "import_recurring True ts rec s =
     (if \<exists>r\<in>set (recurring_transactions s). r_active r \<and>
           r_description r = r_description rec \<and> r_type r = r_type rec \<and>
           r_frequency r = r_frequency rec
      then s
      else s\<lparr>recurring_transactions := recurring_transactions s @
               [\<lparr>r_id = recurring_seq s + 1, r_description = r_description rec,
                 r_category = r_category rec, r_amount = r_amount rec, r_type = r_type rec,
                 r_person = r_person rec, r_frequency = r_frequency rec,
                 r_start_date = r_start_date rec, r_end_date = r_end_date rec,
                 r_last_processed = None, r_active = True, r_created_at = ts\<rparr>],
             recurring_seq := recurring_seq s + 1\<rparr>)"
proof -
  have "list_ex (\<lambda>r. r_description r = r_description rec \<and> r_type r = r_type rec \<and>
                      r_frequency r = r_frequency rec) (get_recurring_transactions s) \<longleftrightarrow>
        (\<exists>r\<in>set (recurring_transactions s). r_active r \<and>
           r_description r = r_description rec \<and> r_type r = r_type rec \<and>
           r_frequency r = r_frequency rec)"
    by (auto simp: list_ex_iff set_get_recurring_transactions)
  then show ?thesis
    by (simp add: import_recurring_def add_recurring_transaction_def Let_def)
qed










lemma add_days_numeral [simp]:
  "add_days d (numeral k) =
     (case next_day d of Inl e \<Rightarrow> Inl e | Inr d' \<Rightarrow> add_days d' (pred_numeral k))"
  by (simp add: numeral_eq_Suc)

lemma process_loop_append:
  "process_loop today ts (xs @ ys) s n =
     (case process_loop today ts xs s n of
        (s1, Inl e) \<Rightarrow> (s1, Inl e)
      | (s1, Inr n1) \<Rightarrow> process_loop today ts ys s1 n1)"
  by (induction xs arbitrary: s n) (simp_all split: sum.splits)

lemmas eval_defs = process_recurring_transactions_def get_recurring_transactions_def
  next_due_of_def last_processed_dt_def sub_one_day_def calculate_next_due_date_def
  next_day_def days_in_month_def is_leap_def replace_def valid_date_def is_due_def
  materialize_def set_last_processed_def add_transaction_def Let_def

lemma process_loop_caught_up:
  "\<forall>r\<in>set recs. caught_up today r \<Longrightarrow> process_loop today ts recs s n = (s, Inr n)"
  by (induction recs) (auto simp: caught_up_def split: sum.splits)

lemma recurring_materialize:
  "recurring_transactions (materialize ts rec d s) =
     map (\<lambda>r. if r_id r = r_id rec then r\<lparr>r_last_processed := Some d\<rparr> else r)
       (recurring_transactions s)"
  by (simp add: materialize_def set_last_processed_def add_transaction_def Let_def)

lemma caught_up_after_materialize:
  assumes "next_due_of rec = Inr d" and "is_due today rec d" and "one_period_behind today rec"
  shows "caught_up today (rec\<lparr>r_last_processed := Some d\<rparr>)"
proof -
  from assms obtain d2 where d2: "calculate_next_due_date d (r_frequency rec) = Inr d2"
    and late: "today < d2"
    by (auto simp: one_period_behind_def split: sum.splits)
  have "next_due_of (rec\<lparr>r_last_processed := Some d\<rparr>) = Inr d2"
    by (simp add: next_due_of_def last_processed_dt_def d2)
  moreover from late have "\<not> d2 \<le> today"
    by simp
  ultimately show ?thesis
    by (simp add: caught_up_def is_due_def)
qed

lemma process_loop_catches_up:
  assumes "distinct (map r_id (recurring_transactions s))"
    and "distinct recs"
    and "set recs \<subseteq> set (recurring_transactions s)"
    and "\<forall>r\<in>set recs. one_period_behind today r"
    and "\<forall>q\<in>set (recurring_transactions s). q \<notin> set recs \<longrightarrow> r_active q \<longrightarrow> caught_up today q"
  shows "\<exists>s1 n1. process_loop today ts recs s n = (s1, Inr n1) \<and>
           (\<forall>q\<in>set (recurring_transactions s1). r_active q \<longrightarrow> caught_up today q)"
  using assms
proof (induction recs arbitrary: s n)
  case Nil
  then show ?case by simp
next
  case (Cons rec rest)
  from Cons.prems(4) have behind: "one_period_behind today rec" by simp
  then obtain d where d: "next_due_of rec = Inr d"
    by (auto simp: one_period_behind_def split: sum.splits)
  from Cons.prems(2) have fresh: "rec \<notin> set rest" and dist: "distinct rest" by simp_all
  from Cons.prems(3) have mem: "rec \<in> set (recurring_transactions s)"
    and sub: "set rest \<subseteq> set (recurring_transactions s)" by simp_all
  from Cons.prems(4) have rest_behind: "\<forall>r\<in>set rest. one_period_behind today r" by simp
  show ?case
  proof (cases "is_due today rec d")
    case False
    have "\<forall>q\<in>set (recurring_transactions s). q \<notin> set rest \<longrightarrow> r_active q \<longrightarrow> caught_up today q"
    proof (intro ballI impI)
      fix q assume q: "q \<in> set (recurring_transactions s)" "q \<notin> set rest" "r_active q"
      show "caught_up today q"
      proof (cases "q = rec")
        case True
        with d False show ?thesis by (simp add: caught_up_def)
      next
        case False
        with q Cons.prems(5) show ?thesis by simp
      qed
    qed
    from Cons.IH [OF Cons.prems(1) dist sub rest_behind this, of n] d False
    show ?thesis by simp
  next
    case True
    let ?s' = "materialize ts rec d s"
    let ?upd = "\<lambda>r. if r_id r = r_id rec then r\<lparr>r_last_processed := Some d\<rparr> else r"
    from Cons.prems(1) have inj: "inj_on r_id (set (recurring_transactions s))"
      by (simp add: distinct_map)
    have same_id: "r = rec" if "r \<in> set (recurring_transactions s)" "r_id r = r_id rec" for r
      using inj that(2) that(1) mem by (rule inj_onD)
    have rows: "recurring_transactions ?s' = map ?upd (recurring_transactions s)"
      by (rule recurring_materialize)
    have "r_id (?upd r) = r_id r" for r
      by simp
    then have ids: "map r_id (recurring_transactions ?s') = map r_id (recurring_transactions s)"
      unfolding rows by (simp add: comp_def)
    have p1: "distinct (map r_id (recurring_transactions ?s'))"
      unfolding ids by (rule Cons.prems(1))
    have p3: "set rest \<subseteq> set (recurring_transactions ?s')"
    proof
      fix x assume x: "x \<in> set rest"
      with sub have xin: "x \<in> set (recurring_transactions s)" by blast
      from x fresh have "x \<noteq> rec" by blast
      with same_id [OF xin] have "?upd x = x" by auto
      moreover from xin have "?upd x \<in> ?upd ` set (recurring_transactions s)"
        by (rule imageI)
      ultimately show "x \<in> set (recurring_transactions ?s')"
        unfolding rows by simp
    qed
    have p5: "\<forall>q\<in>set (recurring_transactions ?s'). q \<notin> set rest \<longrightarrow> r_active q \<longrightarrow>
        caught_up today q"
    proof (intro ballI impI)
      fix q assume q: "q \<in> set (recurring_transactions ?s')" "q \<notin> set rest" "r_active q"
      from q(1) obtain r where r: "r \<in> set (recurring_transactions s)" and qr: "q = ?upd r"
        unfolding rows by auto
      show "caught_up today q"
      proof (cases "r_id r = r_id rec")
        case True
        with same_id [OF r] qr have "q = rec\<lparr>r_last_processed := Some d\<rparr>" by simp
        with caught_up_after_materialize [OF d \<open>is_due today rec d\<close> behind] show ?thesis
          by simp
      next
        case False
        with qr have "q = r" by simp
        moreover from False have "r \<noteq> rec" by auto
        ultimately show ?thesis
          using q r Cons.prems(5) by simp
      qed
    qed
    from Cons.IH [OF p1 dist p3 rest_behind p5, of "n + 1"] d True
    show ?thesis by simp
  qed
qed

section \<open>Results\<close>

text \<open>
  C1. The claim: advancing a date by a month or by a year always gives a calendar date,
  the day clamped to the last day of the target month. The code keeps the day as it is
  and lets \<^verbatim>\<open>replace\<close> raise: from 31 January 2024 the monthly advance raises
  \<^verbatim>\<open>ValueError\<close> (there is no 31 February), and from 29 February 2024 the yearly
  advance raises \<^verbatim>\<open>ValueError\<close> (2025 is no leap year). Both inputs are calendar dates.
\<close>

theorem advance_raises_instead_of_clamping:
  "valid_date (Date 2024 1 31) \<and>
   calculate_next_due_date (Date 2024 1 31) ''monthly'' = Inl ValueError \<and>
   valid_date (Date 2024 2 29) \<and>
   calculate_next_due_date (Date 2024 2 29) ''yearly'' = Inl ValueError"
  by (simp add: calculate_next_due_date_def replace_def valid_date_def days_in_month_def
      is_leap_def)

text \<open>
  C2. The claim: a fault in the date arithmetic of one rule does not keep the other
  rules from being evaluated and materialized. Nothing in
  \<^verbatim>\<open>process_recurring_transactions\<close> catches an exception, so the first fault
  ends the call. The counterexample: a monthly loan starting on 2024-01-31 (its first
  due date would be 30 February) before a weekly bus pass that is due on 2024-02-26;
  on 2024-03-01 the call ends with \<^verbatim>\<open>ValueError\<close> and the store is as it was, the
  bus pass not materialized.
\<close>

theorem fault_in_one_rule_halts_the_others:
  "get_recurring_transactions (rules_only [loan_rule, bus_rule]) = [loan_rule, bus_rule] \<and>
   next_due_of loan_rule = Inl ValueError \<and>
   next_due_of bus_rule = Inr (Date 2024 2 26) \<and>
   is_due (Date 2024 3 1) bus_rule (Date 2024 2 26) \<and>
   process_recurring_transactions (Date 2024 3 1) 9 (rules_only [loan_rule, bus_rule]) =
     (rules_only [loan_rule, bus_rule], Inl ValueError)"
  by (simp add: eval_defs rules_only_def loan_rule_def bus_rule_def)

text \<open>
  C2 as amended: the active rules are processed in the order of their ids; when the
  evaluation of a rule raises a fault, the call ends with that fault, the store being
  as the rules before left it: their materializations stay, and neither the faulting
  rule nor any rule after it is materialized.
\<close>

theorem fault_stops_the_loop:
  "get_recurring_transactions s = before @ rec # rest \<Longrightarrow>
   process_loop today ts before s 0 = (s1, Inr n) \<Longrightarrow>
   next_due_of rec = Inl e \<Longrightarrow>
   process_recurring_transactions today ts s = (s1, Inl e)"
  by (simp add: process_recurring_transactions_def process_loop_append)

theorem fault_stops_the_loop_witness:
  "process_recurring_transactions (Date 2024 3 1) 9 (rules_only [coffee_rule, loan_rule, bus_rule]) =
     (materialize 9 coffee_rule (Date 2024 1 1) (rules_only [coffee_rule, loan_rule, bus_rule]),
      Inl ValueError)"
proof -
  have a: "get_recurring_transactions (rules_only [coffee_rule, loan_rule, bus_rule]) =
      [coffee_rule] @ loan_rule # [bus_rule]"
    by (simp add: get_recurring_transactions_def rules_only_def coffee_rule_def loan_rule_def
        bus_rule_def)
  have b: "process_loop (Date 2024 3 1) 9 [coffee_rule]
      (rules_only [coffee_rule, loan_rule, bus_rule]) 0 =
      (materialize 9 coffee_rule (Date 2024 1 1) (rules_only [coffee_rule, loan_rule, bus_rule]),
       Inr 1)"
    by (simp add: next_due_of_def last_processed_dt_def sub_one_day_def
        calculate_next_due_date_def next_day_def days_in_month_def is_due_def coffee_rule_def)
  have c: "next_due_of loan_rule = Inl ValueError"
    by (simp add: next_due_of_def last_processed_dt_def sub_one_day_def
        calculate_next_due_date_def replace_def valid_date_def days_in_month_def is_leap_def
        loan_rule_def)
  from a b c show ?thesis by (rule fault_stops_the_loop)
qed

text \<open>
  C3. The claim: in merge mode an incoming transaction is skipped exactly when a stored
  one has the same date, category and description. The code compares the date, the
  description and the amount (\<^verbatim>\<open>t[2] == trans[2] and t[4] == trans[4] and
  t[1] == trans[1]\<close>; column 4 is the amount, the category is column 3). The
  counterexample: the stored salary of 100 and an incoming row of the same date,
  category and description but amount 120; the row is inserted and the store grows
  from 3 to 4 transactions.
\<close>

theorem merge_inserts_transaction_of_same_date_category_description:
  "tx_a \<in> set (transactions ledger) \<and> t_date tx_a = t_date tx_dearer \<and>
   t_category tx_a = t_category tx_dearer \<and> t_description tx_a = t_description tx_dearer \<and>
   length (transactions ledger) = 3 \<and>
   length (transactions (fst (import_data True 9 (snapshot_of [tx_dearer] []) ledger))) = 4"
  by (simp add: import_data_def snapshot_of_def import_transaction_merge add_transaction_def
      ledger_def tx_a_def tx_b_def tx_c_def tx_dearer_def)

text \<open>
  C3 as amended: in merge mode an incoming transaction is skipped exactly when a stored
  transaction has the same date, the same description and the same amount; otherwise
  it is inserted. So merging a snapshot whose transactions all have the date,
  description and amount of a stored one leaves the transactions of the store as they
  were.
\<close>

theorem merge_skips_transaction_of_same_date_description_amount:
  "import_transaction True ts tx s =
     (if \<exists>t\<in>set (transactions s).
           t_date t = t_date tx \<and> t_description t = t_description tx \<and> t_amount t = t_amount tx
      then s
      else snd (add_transaction ts (t_date tx) (t_description tx) (t_category tx) (t_amount tx)
                  (t_type tx) (t_person tx) s)) \<and>
   ((\<forall>x\<in>set (snap_transactions data). \<exists>t\<in>set (transactions s).
         t_date t = t_date x \<and> t_description t = t_description x \<and> t_amount t = t_amount x) \<longrightarrow>
    transactions (fst (import_data True ts data s)) = transactions s)"
  by (simp add: import_transaction_merge import_data_def import_transactions_all_known)

theorem merge_skips_transaction_of_same_date_description_amount_witness:
  "import_transaction True 9 tx_relabelled ledger = ledger \<and>
   transactions (fst (import_data True 9 (snapshot_of [tx_relabelled, tx_b] []) ledger)) =
     transactions ledger"
proof -
  have a: "\<exists>t\<in>set (transactions ledger). t_date t = t_date tx_relabelled \<and>
      t_description t = t_description tx_relabelled \<and> t_amount t = t_amount tx_relabelled"
    by (simp add: ledger_def tx_a_def tx_relabelled_def)
  have b: "\<forall>x\<in>set (snap_transactions (snapshot_of [tx_relabelled, tx_b] [])).
      \<exists>t\<in>set (transactions ledger).
         t_date t = t_date x \<and> t_description t = t_description x \<and> t_amount t = t_amount x"
    by (simp add: snapshot_of_def ledger_def tx_a_def tx_b_def tx_relabelled_def)
  from merge_skips_transaction_of_same_date_description_amount
    [of 9 tx_relabelled ledger "snapshot_of [tx_relabelled, tx_b] []"] a b
  show ?thesis by simp
qed

text \<open>
  C4. The claim: a rule with an end date materializes whenever its next due date is at
  most today and at most the end date, also when the end date is before today. The
  code asks for the end date to be today or later
  (\<^verbatim>\<open>strptime(end_date).date() >= today\<close>). The counterexample: a daily trial
  from 2024-01-01 to 2024-01-10, never processed, on 2024-01-15: the next due date
  2024-01-01 is before both, and nothing is materialized.
\<close>

theorem overdue_occurrence_before_end_date_is_dropped:
  "r_end_date trial_rule = Some (Date 2024 1 10) \<and>
   next_due_of trial_rule = Inr (Date 2024 1 1) \<and>
   Date 2024 1 1 \<le> Date 2024 1 15 \<and> Date 2024 1 1 \<le> Date 2024 1 10 \<and>
   process_recurring_transactions (Date 2024 1 15) 9 (rules_only [trial_rule]) =
     (rules_only [trial_rule], Inr 0)"
  by (simp add: eval_defs rules_only_def trial_rule_def)

text \<open>
  C4 as amended: a rule with an end date, whose next due date can be computed, is
  materialized exactly when the next due date is at most today and today is at most
  the end date; materializing appends the transaction of the rule, dated with the due
  date. Once the end date is before today the rule is passed over, whatever its next
  due date.
\<close>

theorem end_date_is_compared_with_today:
  "r_end_date rec = Some e \<Longrightarrow> next_due_of rec = Inr next_due \<Longrightarrow>
   process_loop today ts (rec # rest) s n =
     (if next_due \<le> today \<and> today \<le> e
      then process_loop today ts rest (materialize ts rec next_due s) (n + 1)
      else process_loop today ts rest s n) \<and>
   transactions (materialize ts rec next_due s) =
     transactions s @
       [\<lparr>t_id = transactions_seq s + 1, t_date = next_due,
         t_description = r_description rec @ '' (Auto)'', t_category = r_category rec,
         t_amount = r_amount rec, t_type = r_type rec, t_person = r_person rec,
         t_created_at = ts\<rparr>] \<and>
   (e < today \<longrightarrow> process_loop today ts (rec # rest) s n = process_loop today ts rest s n)"
proof (intro conjI impI)
  assume "r_end_date rec = Some e" and "next_due_of rec = Inr next_due"
  then show "process_loop today ts (rec # rest) s n =
     (if next_due \<le> today \<and> today \<le> e
      then process_loop today ts rest (materialize ts rec next_due s) (n + 1)
      else process_loop today ts rest s n)"
    by (simp add: is_due_def)
next
  show "transactions (materialize ts rec next_due s) =
     transactions s @
       [\<lparr>t_id = transactions_seq s + 1, t_date = next_due,
         t_description = r_description rec @ '' (Auto)'', t_category = r_category rec,
         t_amount = r_amount rec, t_type = r_type rec, t_person = r_person rec,
         t_created_at = ts\<rparr>]"
    by (simp add: materialize_def set_last_processed_def add_transaction_def Let_def)
next
  assume "r_end_date rec = Some e" and "next_due_of rec = Inr next_due" and "e < today"
  then show "process_loop today ts (rec # rest) s n = process_loop today ts rest s n"
    by (auto simp: is_due_def)
qed

theorem end_date_is_compared_with_today_witness:
  "process_loop (Date 2024 1 10) 9 [trial_rule] (rules_only [trial_rule]) 0 =
     (materialize 9 trial_rule (Date 2024 1 1) (rules_only [trial_rule]), Inr 1) \<and>
   process_loop (Date 2024 1 11) 9 [trial_rule] (rules_only [trial_rule]) 0 =
     (rules_only [trial_rule], Inr 0)"
proof -
  have a: "r_end_date trial_rule = Some (Date 2024 1 10)"
    by (simp add: trial_rule_def)
  have b: "next_due_of trial_rule = Inr (Date 2024 1 1)"
    by (simp add: next_due_of_def last_processed_dt_def sub_one_day_def
        calculate_next_due_date_def next_day_def days_in_month_def trial_rule_def)
  from end_date_is_compared_with_today [OF a b, of "Date 2024 1 10" 9 "[]" "rules_only [trial_rule]" 0]
    end_date_is_compared_with_today [OF a b, of "Date 2024 1 11" 9 "[]" "rules_only [trial_rule]" 0]
  show ?thesis by simp
qed



text \<open>
  C6. The claim: a second call with the same today materializes nothing. A call
  advances every rule by one period at most, so a rule that is several periods behind
  is still due after it. The counterexample: a daily rule from 2024-01-01, never
  processed, on 2024-03-01: the first call materializes 2024-01-01 and the second
  2024-01-02.
\<close>

theorem second_call_catches_up_one_more_period:
  "snd (process_recurring_transactions (Date 2024 3 1) 9 (rules_only [coffee_rule])) = Inr 1 \<and>
   snd (process_recurring_transactions (Date 2024 3 1) 9
     (fst (process_recurring_transactions (Date 2024 3 1) 9 (rules_only [coffee_rule])))) = Inr 1 \<and>
   map t_date (transactions (fst (process_recurring_transactions (Date 2024 3 1) 9
     (fst (process_recurring_transactions (Date 2024 3 1) 9 (rules_only [coffee_rule])))))) =
     [Date 2024 1 1, Date 2024 1 2]"
  by (simp add: eval_defs rules_only_def coffee_rule_def)

text \<open>
  C6 as amended: when the ids of the rules are distinct and no active rule is more
  than one period behind (its next due date can be computed and, if the rule is due,
  the due date after that one can be computed and is later than today), the first
  call returns a count and the second call, with the same today, returns 0 and leaves
  the store as the first call left it.
\<close>

theorem second_call_is_idle_when_no_rule_is_more_than_one_period_behind:
  assumes "distinct (map r_id (recurring_transactions s))"
    and "\<forall>r\<in>set (recurring_transactions s). r_active r \<longrightarrow> one_period_behind today r"
  shows "\<exists>s1 n. process_recurring_transactions today ts s = (s1, Inr n) \<and>
           process_recurring_transactions today ts' s1 = (s1, Inr 0)"
proof -
  let ?recs = "get_recurring_transactions s"
  from assms(1) have "distinct (recurring_transactions s)"
    by (simp add: distinct_map)
  then have a: "distinct ?recs"
    by (simp add: get_recurring_transactions_def)
  have b: "set ?recs \<subseteq> set (recurring_transactions s)"
    by (auto simp: get_recurring_transactions_def)
  from assms(2) have c: "\<forall>r\<in>set ?recs. one_period_behind today r"
    by (simp add: get_recurring_transactions_def)
  have e: "\<forall>q\<in>set (recurring_transactions s). q \<notin> set ?recs \<longrightarrow> r_active q \<longrightarrow>
      caught_up today q"
    by (simp add: get_recurring_transactions_def)
  from process_loop_catches_up [OF assms(1) a b c e, of ts 0]
  obtain s1 n where first: "process_loop today ts ?recs s 0 = (s1, Inr n)"
    and idle: "\<forall>q\<in>set (recurring_transactions s1). r_active q \<longrightarrow> caught_up today q"
    by blast
  from idle have "\<forall>r\<in>set (get_recurring_transactions s1). caught_up today r"
    by (simp add: get_recurring_transactions_def)
  then have "process_loop today ts' (get_recurring_transactions s1) s1 0 = (s1, Inr 0)"
    by (rule process_loop_caught_up)
  with first show ?thesis
    by (simp add: process_recurring_transactions_def)
qed

theorem second_call_is_idle_when_no_rule_is_more_than_one_period_behind_witness:
  "distinct (map r_id (recurring_transactions (rules_only [bus_rule, trial_rule]))) \<and>
   one_period_behind (Date 2024 3 1) bus_rule \<and>
   snd (process_recurring_transactions (Date 2024 3 1) 9 (rules_only [bus_rule, trial_rule])) =
     Inr 1 \<and>
   process_recurring_transactions (Date 2024 3 1) 9
     (fst (process_recurring_transactions (Date 2024 3 1) 9 (rules_only [bus_rule, trial_rule]))) =
   (fst (process_recurring_transactions (Date 2024 3 1) 9 (rules_only [bus_rule, trial_rule])),
    Inr 0)"
proof -
  let ?s = "rules_only [bus_rule, trial_rule]"
  have a: "distinct (map r_id (recurring_transactions ?s))"
    by (simp add: rules_only_def bus_rule_def trial_rule_def)
  have b1: "one_period_behind (Date 2024 3 1) bus_rule"
    by (simp add: one_period_behind_def eval_defs bus_rule_def)
  have b2: "one_period_behind (Date 2024 3 1) trial_rule"
    by (simp add: one_period_behind_def eval_defs trial_rule_def)
  from b1 b2 have b: "\<forall>r\<in>set (recurring_transactions ?s). r_active r \<longrightarrow>
      one_period_behind (Date 2024 3 1) r"
    by (simp add: rules_only_def)
  have c: "snd (process_recurring_transactions (Date 2024 3 1) 9 ?s) = Inr 1"
    by (simp add: eval_defs rules_only_def bus_rule_def trial_rule_def)
  from second_call_is_idle_when_no_rule_is_more_than_one_period_behind [OF a b, of 9 9]
  obtain s1 n where "process_recurring_transactions (Date 2024 3 1) 9 ?s = (s1, Inr n)"
    and "process_recurring_transactions (Date 2024 3 1) 9 s1 = (s1, Inr 0)"
    by blast
  then have "process_recurring_transactions (Date 2024 3 1) 9
     (fst (process_recurring_transactions (Date 2024 3 1) 9 ?s)) =
   (fst (process_recurring_transactions (Date 2024 3 1) 9 ?s), Inr 0)"
    by simp
  with a b1 c show ?thesis by (intro conjI)
qed

text \<open>
  C7. The claim: in merge mode a rule that is not skipped is inserted with the
  \<^verbatim>\<open>last_processed\<close> of the snapshot. \<^verbatim>\<open>import_data\<close> passes
  \<^verbatim>\<open>rec[1]\<close> to \<^verbatim>\<open>rec[8]\<close> (up to the end date) to
  \<^verbatim>\<open>add_recurring_transaction\<close>, which has no parameter for
  \<^verbatim>\<open>last_processed\<close> and inserts \<^verbatim>\<open>None\<close>. The counterexample: the gym
  rule, last processed on 2024-01-08, merged into the ledger, is stored as never
  processed.
\<close>

theorem merge_drops_last_processed_of_rule:
  "r_last_processed gym_rule = Some (Date 2024 1 8) \<and>
   map r_description (recurring_transactions
     (fst (import_data True 9 (snapshot_of [] [gym_rule]) ledger))) = [''Rent'', ''Gym''] \<and>
   map r_last_processed (recurring_transactions
     (fst (import_data True 9 (snapshot_of [] [gym_rule]) ledger))) =
     [Some (Date 2024 1 5), None]"
  by (simp add: import_data_def snapshot_of_def import_recurring_merge
      ledger_def rent_rule_def gym_rule_def)

text \<open>
  C7 as amended: in merge mode an incoming rule is skipped exactly when an active
  stored rule has the same description, type and frequency; otherwise it is inserted
  with the description, category, amount, type, person, frequency, start date and end
  date of the snapshot, a new id, no \<^verbatim>\<open>last_processed\<close>, and active.
\<close>

theorem merge_skips_rule_of_same_description_type_frequency:
  "import_recurring True ts rec s =
     (if \<exists>r\<in>set (recurring_transactions s). r_active r \<and>
           r_description r = r_description rec \<and> r_type r = r_type rec \<and>
           r_frequency r = r_frequency rec
      then s
      else s\<lparr>recurring_transactions := recurring_transactions s @
               [\<lparr>r_id = recurring_seq s + 1, r_description = r_description rec,
                 r_category = r_category rec, r_amount = r_amount rec, r_type = r_type rec,
                 r_person = r_person rec, r_frequency = r_frequency rec,
                 r_start_date = r_start_date rec, r_end_date = r_end_date rec,
                 r_last_processed = None, r_active = True, r_created_at = ts\<rparr>],
             recurring_seq := recurring_seq s + 1\<rparr>)"
  by (rule import_recurring_merge)

theorem merge_skips_rule_of_same_description_type_frequency_witness:
  "import_recurring True 9 rent_rule_raised ledger = ledger \<and>
   recurring_transactions (import_recurring True 9 gym_rule ledger) =
     [rent_rule, gym_rule\<lparr>r_last_processed := None, r_created_at := 9\<rparr>]"
proof
  have "\<exists>r\<in>set (recurring_transactions ledger). r_active r \<and>
           r_description r = r_description rent_rule_raised \<and> r_type r = r_type rent_rule_raised \<and>
           r_frequency r = r_frequency rent_rule_raised"
    by (simp add: ledger_def rent_rule_def rent_rule_raised_def)
  with merge_skips_rule_of_same_description_type_frequency [of 9 rent_rule_raised ledger]
  show "import_recurring True 9 rent_rule_raised ledger = ledger"
    by simp
next
  have "\<not> (\<exists>r\<in>set (recurring_transactions ledger). r_active r \<and>
           r_description r = r_description gym_rule \<and> r_type r = r_type gym_rule \<and>
           r_frequency r = r_frequency gym_rule)"
    by (simp add: ledger_def rent_rule_def gym_rule_def)
  with merge_skips_rule_of_same_description_type_frequency [of 9 gym_rule ledger]
  show "recurring_transactions (import_recurring True 9 gym_rule ledger) =
     [rent_rule, gym_rule\<lparr>r_last_processed := None, r_created_at := 9\<rparr>]"
    by (simp add: ledger_def gym_rule_def)
qed

text \<open>
  C8. A query returns exactly the stored transactions that satisfy every predicate
  of the filter that is present (a value that is missing or empty is absent, and no
  filter at all applies none): date at or after the start date, date at or before the
  end date, category, person and type equal to the ones asked for. The result is in
  descending order of date, and of id among the transactions of one date.
\<close>

theorem get_transactions_spec:
  "mset (get_transactions filters s) =
     mset (filter (\<lambda>t. \<forall>f. filters = Some f \<longrightarrow>
         (\<forall>d. f_start_date f = Some d \<longrightarrow> d \<le> t_date t) \<and>
         (\<forall>d. f_end_date f = Some d \<longrightarrow> t_date t \<le> d) \<and>
         (\<forall>c. f_category f = Some c \<and> c \<noteq> [] \<longrightarrow> t_category t = c) \<and>
         (\<forall>p. f_person f = Some p \<and> p \<noteq> [] \<longrightarrow> t_person t = p) \<and>
         (\<forall>ty. f_type f = Some ty \<and> ty \<noteq> [] \<longrightarrow> t_type t = ty)) (transactions s)) \<and>
   sorted_wrt (\<lambda>a b. t_date b < t_date a \<or> (t_date b = t_date a \<and> t_id b \<le> t_id a))
     (get_transactions filters s)"
proof
  have "filter (where_clause filters) (transactions s) =
     filter (\<lambda>t. \<forall>f. filters = Some f \<longrightarrow>
         (\<forall>d. f_start_date f = Some d \<longrightarrow> d \<le> t_date t) \<and>
         (\<forall>d. f_end_date f = Some d \<longrightarrow> t_date t \<le> d) \<and>
         (\<forall>c. f_category f = Some c \<and> c \<noteq> [] \<longrightarrow> t_category t = c) \<and>
         (\<forall>p. f_person f = Some p \<and> p \<noteq> [] \<longrightarrow> t_person t = p) \<and>
         (\<forall>ty. f_type f = Some ty \<and> ty \<noteq> [] \<longrightarrow> t_type t = ty)) (transactions s)"
    by (rule filter_cong [OF refl]) (rule where_clause_iff)
  then show "mset (get_transactions filters s) =
     mset (filter (\<lambda>t. \<forall>f. filters = Some f \<longrightarrow>
         (\<forall>d. f_start_date f = Some d \<longrightarrow> d \<le> t_date t) \<and>
         (\<forall>d. f_end_date f = Some d \<longrightarrow> t_date t \<le> d) \<and>
         (\<forall>c. f_category f = Some c \<and> c \<noteq> [] \<longrightarrow> t_category t = c) \<and>
         (\<forall>p. f_person f = Some p \<and> p \<noteq> [] \<longrightarrow> t_person t = p) \<and>
         (\<forall>ty. f_type f = Some ty \<and> ty \<noteq> [] \<longrightarrow> t_type t = ty)) (transactions s))"
    unfolding get_transactions_def mset_order_by by (simp only:)
next
  show "sorted_wrt (\<lambda>a b. t_date b < t_date a \<or> (t_date b = t_date a \<and> t_id b \<le> t_id a))
     (get_transactions filters s)"
    unfolding get_transactions_def by (rule sorted_order_by)
qed

theorem get_transactions_spec_witness:
  "mset (get_transactions (Some food_filter) ledger) = {#tx_b, tx_c#}"
  using get_transactions_spec [of "Some food_filter" ledger]
  by (simp add: food_filter_def ledger_def tx_a_def tx_b_def tx_c_def less_eq_date_def ymd_def)

text \<open>
  C9. The running balance of no transactions is empty; of an income of 100 on
  2024-01-01 and an expense of 40 on 2024-01-02 it is (2024-01-01, 100),
  (2024-01-02, 60); and in general there is a rearrangement of the transactions,
  ascending by date and keeping the order of the transactions of one date, such that
  the result has one pair for every transaction: its date, and the sum, from 0, of
  the signed amounts up to it (the amount for an income, its negation otherwise).
\<close>

theorem running_balance_spec:
  "running_balance ([] :: 'a::{zero,plus,uminus} transaction list) = [] \<and>
   (\<forall>a b :: real transaction.
      t_date a = Date 2024 1 1 \<and> t_type a = ''Income'' \<and> t_amount a = 100 \<and>
      t_date b = Date 2024 1 2 \<and> t_type b = ''Expense'' \<and> t_amount b = 40 \<longrightarrow>
      running_balance [a, b] = [(Date 2024 1 1, 100), (Date 2024 1 2, 60)]) \<and>
   (\<exists>ys. mset ys = mset txs \<and> sorted (map t_date ys) \<and>
      (\<forall>d. filter (\<lambda>t. t_date t = d) ys = filter (\<lambda>t. t_date t = d) txs) \<and>
      length (running_balance (txs :: 'b::{zero,plus,uminus} transaction list)) = length txs \<and>
      (\<forall>i<length txs. running_balance txs ! i =
         (t_date (ys ! i),
          foldl (+) 0 (map (\<lambda>t. if t_type t = ''Income'' then t_amount t else - t_amount t)
            (take (Suc i) ys)))))"
proof (intro conjI)
  show "running_balance ([] :: 'a transaction list) = []"
    by (simp add: running_balance_def)
next
  show "\<forall>a b :: real transaction.
      t_date a = Date 2024 1 1 \<and> t_type a = ''Income'' \<and> t_amount a = 100 \<and>
      t_date b = Date 2024 1 2 \<and> t_type b = ''Expense'' \<and> t_amount b = 40 \<longrightarrow>
      running_balance [a, b] = [(Date 2024 1 1, 100), (Date 2024 1 2, 60)]"
    by (simp add: running_balance_def Let_def less_eq_date_def ymd_def)
next
  let ?ys = "sort_key t_date txs"
  have "mset ?ys = mset txs" by simp
  moreover have "sorted (map t_date ?ys)" by (rule sorted_sort_key)
  moreover have "\<forall>d. filter (\<lambda>t. t_date t = d) ?ys = filter (\<lambda>t. t_date t = d) txs"
    by (simp add: sort_key_stable)
  moreover have "length (running_balance txs) = length txs"
    by (simp add: running_balance_eq length_cumulative)
  moreover have "\<forall>i<length txs. running_balance txs ! i =
         (t_date (?ys ! i),
          foldl (+) 0 (map (\<lambda>t. if t_type t = ''Income'' then t_amount t else - t_amount t)
            (take (Suc i) ?ys)))"
    by (simp add: running_balance_nth)
  ultimately show "\<exists>ys. mset ys = mset txs \<and> sorted (map t_date ys) \<and>
      (\<forall>d. filter (\<lambda>t. t_date t = d) ys = filter (\<lambda>t. t_date t = d) txs) \<and>
      length (running_balance txs) = length txs \<and>
      (\<forall>i<length txs. running_balance txs ! i =
         (t_date (ys ! i),
          foldl (+) 0 (map (\<lambda>t. if t_type t = ''Income'' then t_amount t else - t_amount t)
            (take (Suc i) ys))))"
    by blast
qed

theorem running_balance_spec_witness:
  "running_balance [tx_a, tx_b] = [(Date 2024 1 1, 100), (Date 2024 1 2, 60)] \<and>
   running_balance [tx_b, tx_a] ! 1 = (Date 2024 1 2, 60)"
proof
  have "t_date tx_a = Date 2024 1 1 \<and> t_type tx_a = ''Income'' \<and> t_amount tx_a = 100 \<and>
      t_date tx_b = Date 2024 1 2 \<and> t_type tx_b = ''Expense'' \<and> t_amount tx_b = 40"
    by (simp add: tx_a_def tx_b_def)
  with running_balance_spec show "running_balance [tx_a, tx_b] = [(Date 2024 1 1, 100), (Date 2024 1 2, 60)]"
    by blast
next
  from running_balance_spec [of "[tx_b, tx_a]"]
  obtain ys where m: "mset ys = mset [tx_b, tx_a]" and s: "sorted (map t_date ys)"
    and n: "\<forall>i<length [tx_b, tx_a]. running_balance [tx_b, tx_a] ! i =
         (t_date (ys ! i),
          foldl (+) 0 (map (\<lambda>t. if t_type t = ''Income'' then t_amount t else - t_amount t)
            (take (Suc i) ys)))"
    by blast
  from m have "size (mset ys) = size (mset [tx_b, tx_a])" by simp
  then have "length ys = 2" by simp
  then obtain x y where ys: "ys = [x, y]"
    by (auto simp: length_Suc_conv numeral_2_eq_2)
  from m ys have "{#x, y#} = {#tx_b, tx_a#}" by simp
  then have "(x = tx_b \<and> y = tx_a) \<or> (x = tx_a \<and> y = tx_b)"
    by (auto simp: add_eq_conv_ex)
  moreover have "\<not> t_date tx_b \<le> t_date tx_a"
    by (simp add: tx_a_def tx_b_def less_eq_date_def ymd_def)
  ultimately have "ys = [tx_a, tx_b]"
    using s ys by auto
  with n have "running_balance [tx_b, tx_a] ! 1 =
         (t_date ([tx_a, tx_b] ! 1),
          foldl (+) 0 (map (\<lambda>t. if t_type t = ''Income'' then t_amount t else - t_amount t)
            (take (Suc 1) [tx_a, tx_b])))"
    by simp
  then show "running_balance [tx_b, tx_a] ! 1 = (Date 2024 1 2, 60)"
    by (simp add: tx_a_def tx_b_def)
qed

text \<open>
  C10. A frequency that is none of daily, weekly, bi-weekly, monthly, yearly is not
  rejected: the date advances by one day, exactly as the daily rule does (also where
  the daily rule overflows, on 9999-12-31).
\<close>

theorem unknown_frequency_is_daily:
  "frequency \<notin> {''daily'', ''weekly'', ''bi-weekly'', ''monthly'', ''yearly''} \<Longrightarrow>
   calculate_next_due_date d frequency = add_days d 1 \<and>
   calculate_next_due_date d frequency = calculate_next_due_date d ''daily''"
  by (simp add: calculate_next_due_date_def)

theorem unknown_frequency_is_daily_witness:
  "''hourly'' \<notin> {''daily'', ''weekly'', ''bi-weekly'', ''monthly'', ''yearly''} \<and>
   calculate_next_due_date (Date 2024 2 29) ''hourly'' = Inr (Date 2024 3 1) \<and>
   calculate_next_due_date (Date 2024 2 29) ''hourly'' =
     calculate_next_due_date (Date 2024 2 29) ''daily''"
proof -
  have h: "''hourly'' \<notin> {''daily'', ''weekly'', ''bi-weekly'', ''monthly'', ''yearly''}"
    by simp
  have a: "add_days (Date 2024 2 29) 1 = Inr (Date 2024 3 1)"
    by (simp add: next_day_def days_in_month_def is_leap_def)
  note t = unknown_frequency_is_daily [OF h, of "Date 2024 2 29"]
  have t1: "calculate_next_due_date (Date 2024 2 29) ''hourly'' = add_days (Date 2024 2 29) 1"
    using t by (rule conjunct1)
  have t2: "calculate_next_due_date (Date 2024 2 29) ''hourly'' =
      calculate_next_due_date (Date 2024 2 29) ''daily''"
    using t by (rule conjunct2)
  have r: "calculate_next_due_date (Date 2024 2 29) ''hourly'' = Inr (Date 2024 3 1)"
    using t1 a by (rule trans)
  show ?thesis
    using h r t2 by (intro conjI)
qed

end
